theory Spec2Isabelle
  imports Main "HOL-Library.Word"
begin

section \<open>Credential generator of the password-generator dialog\<close>

text \<open>
  The two generators are the closures \<^verbatim>\<open>generateRandomPassword\<close> and
  \<^verbatim>\<open>generateRandomPassphrase\<close> of the component \<^verbatim>\<open>PasswordGenerator\<close>. They take
  no argument: the policy is the component's state, and the randomness comes from two
  different platform sources, \<^verbatim>\<open>crypto.getRandomValues\<close> and \<^verbatim>\<open>Math.random\<close>. In
  the model both the policy and the two sources are explicit arguments.
\<close>

subsection \<open>The two random sources\<close>

type_synonym u32 = "32 word"

text \<open>
  \<^verbatim>\<open>Math.random()\<close> returns a double \<open>r\<close> with \<open>0 \<le> r < 1\<close>, in practice a
  multiple of \<open>2^-53\<close>. The value \<open>k / 2^53\<close> is represented by the 53-bit number
  \<open>k\<close>. The stream of the values of successive calls is a function of the call number;
  every generator threads the number of the next call through its steps.
\<close>

type_synonym unit_double = "53 word"

type_synonym math_random = "nat \<Rightarrow> unit_double"

text \<open>
  The product \<^verbatim>\<open>Math.random() * n\<close> is a product of two doubles, rounded to the
  nearest double, ties to the even one. Counted in units of \<open>2^-53\<close>, the exact product
  of \<open>k / 2^53\<close> and an integer \<open>n\<close> is the number \<open>K = k * n\<close>. A double keeps
  the 53 leading binary digits \<open>q\<close> of it; the \<open>s\<close> digits \<open>r\<close> below them are rounded
  away, upwards when they are more than half a unit of the last digit kept, or exactly
  half of it with \<open>q\<close> odd.
\<close>

fun bit_length :: "nat \<Rightarrow> nat" where
  "bit_length n = (if n = 0 then 0 else Suc (bit_length (n div 2)))"

declare bit_length.simps [simp del]

definition round_to_double :: "nat \<Rightarrow> nat" where
  "round_to_double K =
     (let s = bit_length K - 53; q = K div 2 ^ s; r = K mod 2 ^ s
      in (if 2 ^ s < 2 * r then q + 1
          else if 2 ^ s = 2 * r \<and> odd q then q + 1
          else q) * 2 ^ s)"

text \<open>\<^verbatim>\<open>Math.floor(Math.random() * n)\<close>, for an integer \<open>n\<close> below \<open>2^53\<close>.\<close>

definition random_index :: "unit_double \<Rightarrow> nat \<Rightarrow> nat" where
  "random_index r n = round_to_double (unat r * n) div 2 ^ 53"

text \<open>\<^verbatim>\<open>Math.random() > 0.5\<close>.\<close>

definition above_half :: "unit_double \<Rightarrow> bool" where
  "above_half r = (2 ^ 52 < unat r)"

datatype js_error = QuotaExceededError

text \<open>
  \<^verbatim>\<open>const array = new Uint32Array(n); crypto.getRandomValues(array)\<close>: the secure
  source fills the \<open>n\<close> cells. The platform refuses a buffer of more than 65536 bytes
  with a \<^verbatim>\<open>QuotaExceededError\<close>; a cell is four bytes. (An array too large to
  allocate is refused earlier, with a \<^verbatim>\<open>RangeError\<close>, at a size that depends on the
  platform; the model has one error for both.)
\<close>

definition getRandomValues :: "(nat \<Rightarrow> u32) \<Rightarrow> nat \<Rightarrow> js_error + u32 list" where
  "getRandomValues secure n =
     (if 65536 < 4 * n then Inl QuotaExceededError else Inr (map secure [0..<n]))"

subsection \<open>Character-set passwords\<close>

text \<open>
  The settings of the password mode. The state variable \<^verbatim>\<open>length\<close> is the field
  \<open>pw_length\<close>; the dialog sets it with a slider from 8 to 64, and the generator reads
  it as it is.
\<close>

record password_policy =
  pw_length :: nat
  includeUppercase :: bool
  includeLowercase :: bool
  includeNumbers :: bool
  includeSymbols :: bool
  excludeAmbiguous :: bool

definition uppercase :: string where
  "uppercase = ''ABCDEFGHIJKLMNOPQRSTUVWXYZ''"

definition lowercase :: string where
  "lowercase = ''abcdefghijklmnopqrstuvwxyz''"

definition numbers :: string where
  "numbers = ''0123456789''"

definition symbols :: string where
  "symbols = ''!@#$%^&*()_+-=[]{}|;:,.<>?''"

definition ambiguous :: string where
  "ambiguous = ''il1Lo0O''"

text \<open>The four \<^verbatim>\<open>if (include...) charset += ...\<close> statements.\<close>

definition enabled_union :: "password_policy \<Rightarrow> string" where
  "enabled_union p =
     (if includeUppercase p then uppercase else []) @
     (if includeLowercase p then lowercase else []) @
     (if includeNumbers p then numbers else []) @
     (if includeSymbols p then symbols else [])"

text \<open>The filter of the ambiguous characters.\<close>

definition filtered_charset :: "password_policy \<Rightarrow> string" where
  "filtered_charset p =
     (if excludeAmbiguous p
      then filter (\<lambda>char. \<not> List.member ambiguous char) (enabled_union p)
      else enabled_union p)"

text \<open>The fallback: \<^verbatim>\<open>if (charset.length === 0) charset = lowercase\<close>.\<close>

definition build_charset :: "password_policy \<Rightarrow> string" where
  "build_charset p =
     (if length (filtered_charset p) = 0 then lowercase else filtered_charset p)"

text \<open>The drawing loop: \<^verbatim>\<open>result += charset[array[i] % charset.length]\<close>.\<close>

definition draw_chars :: "string \<Rightarrow> u32 list \<Rightarrow> string" where
  "draw_chars charset array = map (\<lambda>x. charset ! (unat x mod length charset)) array"

text \<open>The list \<^verbatim>\<open>ensureChars\<close> of the enabled categories, each one unfiltered.\<close>

definition ensureChars :: "password_policy \<Rightarrow> string list" where
  "ensureChars p =
     (if includeUppercase p then [uppercase] else []) @
     (if includeLowercase p then [lowercase] else []) @
     (if includeNumbers p then [numbers] else []) @
     (if includeSymbols p then [symbols] else [])"

text \<open>\<^verbatim>\<open>result.split("").some((char) => set.includes(char))\<close>.\<close>

definition has_char_of :: "string \<Rightarrow> string \<Rightarrow> bool" where
  "has_char_of cs result = list_ex (\<lambda>char. List.member cs char) result"

text \<open>
  One round of the \<^verbatim>\<open>forEach\<close>: when the result has no character of the category, a
  character of the category, chosen with \<^verbatim>\<open>Math.random\<close>, is spliced in at a position
  chosen with \<^verbatim>\<open>Math.random\<close>:
  \<^verbatim>\<open>result.substring(0, pos) + randomChar + result.substring(pos + 1)\<close>.
  The state is the result and the number of the next \<^verbatim>\<open>Math.random\<close> call.
\<close>

definition ensure_step :: "math_random \<Rightarrow> string \<times> nat \<Rightarrow> string \<Rightarrow> string \<times> nat" where
  "ensure_step rnd st cs =
     (let result = fst st; i = snd st in
      if has_char_of cs result then (result, i)
      else
        let randomChar = cs ! random_index (rnd i) (length cs);
            pos = random_index (rnd (i + 1)) (length result)
        in (take pos result @ [randomChar] @ drop (pos + 1) result, i + 2))"

definition generateRandomPassword ::
  "password_policy \<Rightarrow> (nat \<Rightarrow> u32) \<Rightarrow> math_random \<Rightarrow> js_error + string" where
  "generateRandomPassword p secure rnd =
     (case getRandomValues secure (pw_length p) of
        Inl e \<Rightarrow> Inl e
      | Inr array \<Rightarrow>
          Inr (fst (foldl (ensure_step rnd) (draw_chars (build_charset p) array, 0)
                      (ensureChars p))))"

subsection \<open>Word-list passphrases\<close>

text \<open>
  The settings of the passphrase mode. The capitalisation is one of the strings
  \<^verbatim>\<open>none\<close>, \<^verbatim>\<open>first\<close>, \<^verbatim>\<open>all\<close> and \<^verbatim>\<open>random\<close>; the dialog sets the word
  count with a slider from 3 to 8.
\<close>

datatype capitalize_option = Cap_none | Cap_first | Cap_all | Cap_random

record passphrase_policy =
  wordCount :: nat
  separator :: string
  capitalize :: capitalize_option
  includeNumber :: bool

definition WORD_LIST :: "string list" where
  "WORD_LIST =
     [''correct'', ''horse'', ''battery'', ''staple'', ''dragon'', ''monkey'', ''puzzle'',
      ''secret'', ''castle'', ''thunder'', ''rainbow'', ''galaxy'', ''planet'', ''ocean'',
      ''mountain'', ''forest'', ''river'', ''sunset'', ''coffee'', ''wizard'', ''knight'',
      ''phoenix'', ''crystal'', ''shadow'', ''silver'', ''golden'', ''diamond'',
      ''emerald'', ''tiger'', ''eagle'', ''wolf'', ''falcon'', ''anchor'', ''compass'',
      ''voyage'', ''island'', ''treasure'', ''captain'', ''pirate'', ''mermaid'',
      ''unicorn'', ''griffin'', ''centaur'', ''pegasus'', ''kraken'', ''atlantis'',
      ''olympus'', ''valhalla'', ''nebula'', ''cosmos'', ''meteor'', ''comet'', ''aurora'',
      ''eclipse'', ''solstice'', ''equinox'', ''quantum'', ''neutron'', ''photon'',
      ''electron'', ''proton'', ''particle'', ''energy'', ''velocity'', ''harmony'',
      ''melody'', ''rhythm'', ''symphony'', ''chorus'', ''sonata'', ''concerto'',
      ''prelude'', ''crimson'', ''scarlet'', ''azure'', ''violet'', ''amber'', ''jade'',
      ''ivory'', ''ebony'', ''thunder'', ''lightning'', ''blizzard'', ''tempest'',
      ''monsoon'', ''typhoon'', ''cyclone'', ''tornado'', ''glacier'', ''volcano'',
      ''desert'', ''tundra'', ''prairie'', ''canyon'', ''valley'', ''summit'', ''orchid'',
      ''lotus'', ''jasmine'', ''tulip'', ''rose'', ''lily'', ''daisy'', ''violet'',
      ''maple'', ''willow'', ''cedar'', ''pine'', ''birch'', ''oak'', ''elm'', ''ash'']"

text \<open>
  The sampling loop
  \<^verbatim>\<open>while (selectedWords.length < wordCount) { index = ...; if (!usedIndices.has(index)) {...} }\<close>.
  Nothing bounds the number of its rounds, so the model is a partial function: \<open>None\<close>
  is the run that never leaves the loop. The result is the list of the selected words and
  the number of the next \<^verbatim>\<open>Math.random\<close> call.
\<close>

partial_function (option) select_words ::
  "math_random \<Rightarrow> nat \<Rightarrow> string list \<Rightarrow> nat set \<Rightarrow> nat \<Rightarrow> (string list \<times> nat) option" where
  "select_words rnd count selectedWords usedIndices i =
     (if length selectedWords < count then
        (let index = random_index (rnd i) (length WORD_LIST) in
         if index \<notin> usedIndices
         then select_words rnd count (selectedWords @ [WORD_LIST ! index])
                (insert index usedIndices) (i + 1)
         else select_words rnd count selectedWords usedIndices (i + 1))
      else Some (selectedWords, i))"

text \<open>
  \<^verbatim>\<open>toUpperCase\<close> on one character, as a table of the ASCII letters: the words of
  the list have no other character, and a character that is no lower-case ASCII letter
  is left as it is.
\<close>

definition to_upper :: "char \<Rightarrow> char" where
  "to_upper c =
     (case map_of (zip ''abcdefghijklmnopqrstuvwxyz'' ''ABCDEFGHIJKLMNOPQRSTUVWXYZ'') c of
        None \<Rightarrow> c
      | Some u \<Rightarrow> u)"

text \<open>\<^verbatim>\<open>word.charAt(0).toUpperCase() + word.slice(1)\<close>.\<close>

fun capitalize_word :: "string \<Rightarrow> string" where
  "capitalize_word [] = []"
| "capitalize_word (c # cs) = to_upper c # cs"

text \<open>
  The callback of \<^verbatim>\<open>selectedWords.map((word, idx) => ...)\<close>; only the variant
  \<^verbatim>\<open>random\<close> calls \<^verbatim>\<open>Math.random\<close>.
\<close>

definition capitalize_at ::
  "capitalize_option \<Rightarrow> math_random \<Rightarrow> nat \<Rightarrow> nat \<Rightarrow> string \<Rightarrow> string \<times> nat" where
  "capitalize_at mode rnd idx i word =
     (case mode of
        Cap_all \<Rightarrow> (capitalize_word word, i)
      | Cap_first \<Rightarrow> (if idx = 0 then capitalize_word word else word, i)
      | Cap_random \<Rightarrow> (if above_half (rnd i) then capitalize_word word else word, i + 1)
      | Cap_none \<Rightarrow> (word, i))"

fun capitalize_words ::
  "capitalize_option \<Rightarrow> math_random \<Rightarrow> nat \<Rightarrow> nat \<Rightarrow> string list \<Rightarrow> string list \<times> nat" where
  "capitalize_words mode rnd idx i [] = ([], i)"
| "capitalize_words mode rnd idx i (word # rest) =
     (let wj = capitalize_at mode rnd idx i word;
          rk = capitalize_words mode rnd (idx + 1) (snd wj) rest
      in (fst wj # fst rk, snd rk))"

text \<open>\<^verbatim>\<open>capitalizedWords.join(separator)\<close>.\<close>

fun join_words :: "string \<Rightarrow> string list \<Rightarrow> string" where
  "join_words sep [] = []"
| "join_words sep [w] = w"
| "join_words sep (w # v # ws) = w @ sep @ join_words sep (v # ws)"

text \<open>The decimal numeral that string concatenation gives a non-negative integer.\<close>

definition digit_char :: "nat \<Rightarrow> char" where
  "digit_char d = ''0123456789'' ! d"

fun number_to_string :: "nat \<Rightarrow> string" where
  "number_to_string n =
     (if n < 10 then [digit_char n] else number_to_string (n div 10) @ [digit_char (n mod 10)])"

declare number_to_string.simps [simp del]

definition generateRandomPassphrase :: "passphrase_policy \<Rightarrow> math_random \<Rightarrow> string option" where
  "generateRandomPassphrase p rnd =
     (case select_words rnd (wordCount p) [] {} 0 of
        None \<Rightarrow> None
      | Some sel \<Rightarrow>
          (let cap = capitalize_words (capitalize p) rnd 0 (snd sel) (fst sel);
               result = join_words (separator p) (fst cap)
           in Some (if includeNumber p
                    then result @ separator p @
                           number_to_string (random_index (rnd (snd cap)) 9999)
                    else result)))"

text \<open>Streams for concrete runs: the listed values, then zeros.\<close>

definition stream_of :: "'a::zero list \<Rightarrow> nat \<Rightarrow> 'a" where
  "stream_of xs i = (if i < length xs then xs ! i else 0)"

definition constant_stream :: "'a \<Rightarrow> nat \<Rightarrow> 'a" where
  "constant_stream c i = c"

text \<open>
  The value of \<^verbatim>\<open>Math.random()\<close> just below the fraction \<open>a / b\<close>, for writing
  concrete runs: \<open>fraction 19 224\<close> is about \<open>0.0848\<close>.
\<close>

definition fraction :: "nat \<Rightarrow> nat \<Rightarrow> unit_double" where
  "fraction a b = of_nat (a * 2 ^ 53 div b)"

subsection \<open>Notions used to state the properties\<close>

text \<open>
  The capitalisation as the specification words it: \<^verbatim>\<open>none\<close> leaves all words
  unchanged, \<^verbatim>\<open>first\<close> capitalises only the first word, \<^verbatim>\<open>all\<close> capitalises every
  word, and \<^verbatim>\<open>random\<close> capitalises each word on a coin flip of its own; the flips are
  the calls \<open>i\<close>, \<open>i + 1\<close>, ... of \<^verbatim>\<open>Math.random\<close>.
\<close>

definition spec_capitalize ::
  "capitalize_option \<Rightarrow> math_random \<Rightarrow> nat \<Rightarrow> string list \<Rightarrow> string list" where
  "spec_capitalize mode rnd i ws =
     (case mode of
        Cap_none \<Rightarrow> ws
      | Cap_first \<Rightarrow> (case ws of [] \<Rightarrow> [] | w # rest \<Rightarrow> capitalize_word w # rest)
      | Cap_all \<Rightarrow> map capitalize_word ws
      | Cap_random \<Rightarrow>
          map2 (\<lambda>w k. if above_half (rnd k) then capitalize_word w else w) ws
            [i..<i + length ws])"

text \<open>
  The word indices of the first \<open>N\<close> calls of \<^verbatim>\<open>Math.random\<close>, as the sampling loop
  computes them. The loop asks for one index in each of its rounds.
\<close>

definition drawn_indices :: "math_random \<Rightarrow> nat \<Rightarrow> nat list" where
  "drawn_indices rnd N = map (\<lambda>j. random_index (rnd j) (length WORD_LIST)) [0..<N]"

text \<open>
  The invariant of the sampling loop: the used indices are indices of the word list, and
  there is one of them for each selected word.
\<close>

definition sampling_inv :: "string list \<Rightarrow> nat set \<Rightarrow> bool" where
  "sampling_inv selectedWords usedIndices =
     (usedIndices \<subseteq> {..<length WORD_LIST} \<and> card usedIndices = length selectedWords)"

section \<open>Properties of the credential generator\<close>

subsection \<open>Indices drawn with \<^verbatim>\<open>Math.random\<close>\<close>

lemma bit_length_lower: "0 < n \<Longrightarrow> 2 ^ (bit_length n - 1) \<le> n"
proof (induction n rule: bit_length.induct)
  case (1 n)
  show ?case
  proof (cases "n div 2 = 0")
    case True
    with "1.prems" show ?thesis
      by (simp add: bit_length.simps [of n] bit_length.simps [of 0])
  next
    case False
    with "1.IH" "1.prems" have IH: "2 ^ (bit_length (n div 2) - 1) \<le> n div 2" by simp
    from False have pos: "0 < bit_length (n div 2)"
      by (simp add: bit_length.simps [of "n div 2"])
    have "bit_length n = Suc (bit_length (n div 2))"
      using "1.prems" by (simp add: bit_length.simps [of n])
    then have "(2::nat) ^ (bit_length n - 1) = 2 * 2 ^ (bit_length (n div 2) - 1)"
      using pos by (cases "bit_length (n div 2)") simp_all
    also have "\<dots> \<le> 2 * (n div 2)" using IH by simp
    also have "\<dots> \<le> n" by simp
    finally show ?thesis .
  qed
qed

text \<open>Rounding adds at most half a unit in the last place, which is at most \<open>K / 2^53\<close>.\<close>

lemma round_to_double_le: "round_to_double K \<le> K + K div 2 ^ 53"
proof (cases "bit_length K \<le> 53")
  case True
  then show ?thesis by (simp add: round_to_double_def)
next
  case False
  define s where "s = bit_length K - 53"
  define q where "q = K div 2 ^ s"
  define r where "r = K mod 2 ^ s"
  from False have s: "0 < s" and bl: "bit_length K - 1 = 52 + s"
    by (simp_all add: s_def)
  from False have "0 < K" by (cases "K = 0") (simp_all add: bit_length.simps [of 0])
  from bit_length_lower [OF this] bl have big: "2 ^ (52 + s) \<le> K" by simp
  from s obtain t where t: "s = Suc t" by (cases s) simp_all
  have "(2::nat) ^ (52 + s) = 2 ^ t * 2 ^ 53"
    by (simp add: t power_add)
  with big have "2 ^ t * 2 ^ 53 \<le> K" by simp
  then have half: "2 ^ t \<le> K div 2 ^ 53"
    by (simp add: less_eq_div_iff_mult_less_eq)
  have K: "K = q * 2 ^ s + r" unfolding q_def r_def by (rule div_mult_mod_eq [symmetric])
  have two: "(2::nat) ^ s = 2 * 2 ^ t" by (simp add: t)
  have rd: "round_to_double K =
      (if 2 ^ s < 2 * r then q + 1 else if 2 ^ s = 2 * r \<and> odd q then q + 1 else q) * 2 ^ s"
    by (simp only: round_to_double_def Let_def s_def q_def r_def)
  have "round_to_double K \<le> K + 2 ^ t"
  proof (cases "2 ^ s < 2 * r \<or> (2 ^ s = 2 * r \<and> odd q)")
    case True
    with rd have "round_to_double K = (q + 1) * 2 ^ s"
      by auto
    moreover from True two have "2 ^ t \<le> r" by auto
    ultimately show ?thesis using K two by (simp add: algebra_simps)
  next
    case False
    with rd have "round_to_double K = q * 2 ^ s"
      by auto
    with K show ?thesis by simp
  qed
  with half show ?thesis by simp
qed

text \<open>The rounded product never reaches \<open>n\<close>: the index is an index of the \<open>n\<close> items.\<close>

lemma random_index_less: "0 < n \<Longrightarrow> random_index r n < n"
proof -
  assume n: "0 < n"
  define K where "K = unat r * n"
  have "unat r < 2 ^ 53"
    using unsigned_less [of r] by simp
  then have "unat r + 1 \<le> 2 ^ 53" by simp
  then have "(unat r + 1) * n \<le> 2 ^ 53 * n" by (rule mult_le_mono1)
  then have K: "K + n \<le> n * 2 ^ 53" by (simp add: K_def algebra_simps)
  with n have "K < n * 2 ^ 53" by simp
  then have "K div 2 ^ 53 < n"
    by (rule less_mult_imp_div_less)
  with K round_to_double_le [of K] have "round_to_double K < n * 2 ^ 53"
    by linarith
  then have "round_to_double K div 2 ^ 53 < n"
    by (rule less_mult_imp_div_less)
  then show ?thesis
    by (simp add: random_index_def K_def)
qed

lemma length_WORD_LIST: "length WORD_LIST = 112"
  by (simp add: WORD_LIST_def)

lemma word_index_less: "random_index r (length WORD_LIST) < length WORD_LIST"
  by (rule random_index_less) (simp add: length_WORD_LIST)

lemma trailing_number_range: "random_index r 9999 \<le> 9998"
  using random_index_less [of 9999 r] by simp

subsection \<open>The coverage step keeps the length of a non-empty result\<close>

lemma ensure_step_in_place:
  assumes "result \<noteq> []"
  shows "\<exists>pos c. pos < length result \<and>
           (fst (ensure_step rnd (result, i) cs) = result \<or>
            fst (ensure_step rnd (result, i) cs) = result[pos := c])"
proof -
  let ?pos = "random_index (rnd (i + 1)) (length result)"
  let ?c = "cs ! random_index (rnd i) (length cs)"
  from assms have pos: "?pos < length result"
    by (simp add: random_index_less)
  then have "take ?pos result @ [?c] @ drop (?pos + 1) result = result[?pos := ?c]"
    by (simp add: upd_conv_take_nth_drop)
  then have "fst (ensure_step rnd (result, i) cs) = result \<or>
             fst (ensure_step rnd (result, i) cs) = result[?pos := ?c]"
    by (simp add: ensure_step_def Let_def)
  with pos show ?thesis by blast
qed

lemma length_ensure_step:
  "result \<noteq> [] \<Longrightarrow> length (fst (ensure_step rnd (result, i) cs)) = length result"
  using ensure_step_in_place [of result rnd i cs] by auto

lemma length_ensure_fold:
  "fst st \<noteq> [] \<Longrightarrow> length (fst (foldl (ensure_step rnd) st sets)) = length (fst st)"
proof (induction sets arbitrary: st)
  case Nil
  then show ?case by simp
next
  case (Cons cs sets)
  obtain result i where st: "st = (result, i)" by (cases st)
  with Cons.prems have ne: "result \<noteq> []" by simp
  have len: "length (fst (ensure_step rnd st cs)) = length result"
    using length_ensure_step [OF ne] st by simp
  then have "fst (ensure_step rnd st cs) \<noteq> []" using ne by auto
  from Cons.IH [OF this] len st show ?case by simp
qed

lemma length_draw_chars: "length (draw_chars charset array) = length array"
  by (simp add: draw_chars_def)

lemma set_draw_chars:
  assumes "charset \<noteq> []"
  shows "set (draw_chars charset array) \<subseteq> set charset"
proof
  fix c
  assume "c \<in> set (draw_chars charset array)"
  then obtain x :: u32 where "c = charset ! (unat x mod length charset)"
    by (auto simp: draw_chars_def)
  moreover from assms have "unat x mod length charset < length charset"
    by simp
  ultimately show "c \<in> set charset"
    by simp
qed

text \<open>
  The drawing loop respects the filter: while the filtered character set is not empty,
  no drawn character is an ambiguous one.
\<close>

lemma drawn_chars_not_ambiguous:
  assumes "excludeAmbiguous p" "filtered_charset p \<noteq> []"
  shows "\<forall>c \<in> set (draw_chars (build_charset p) array). \<not> List.member ambiguous c"
proof -
  from assms(2) have "build_charset p = filtered_charset p"
    by (simp add: build_charset_def)
  with set_draw_chars [OF assms(2), of array]
  have "set (draw_chars (build_charset p) array) \<subseteq> set (filtered_charset p)"
    by simp
  with assms(1) show ?thesis
    by (auto simp: filtered_charset_def)
qed

lemma generateRandomPassword_length:
  assumes "1 \<le> pw_length p" "pw_length p \<le> 16384"
  shows "\<exists>pw. generateRandomPassword p secure rnd = Inr pw \<and> length pw = pw_length p"
proof -
  let ?drawn = "draw_chars (build_charset p) (map secure [0..<pw_length p])"
  have len: "length ?drawn = pw_length p" by (simp add: length_draw_chars)
  with assms(1) have "fst (?drawn, 0::nat) \<noteq> []" by auto
  from length_ensure_fold [OF this, of rnd "ensureChars p"] len assms(2)
  show ?thesis by (simp add: generateRandomPassword_def getRandomValues_def)
qed

lemma generateRandomPassword_quota:
  "16384 < pw_length p \<Longrightarrow> generateRandomPassword p secure rnd = Inl QuotaExceededError"
  by (simp add: generateRandomPassword_def getRandomValues_def)

subsection \<open>The sampling loop\<close>

lemma sampling_inv_insert:
  assumes "sampling_inv sel used" "k < length WORD_LIST" "k \<notin> used"
  shows "sampling_inv (sel @ [w]) (insert k used)"
proof -
  from assms(1) have "finite used"
    unfolding sampling_inv_def using finite_subset by blast
  with assms show ?thesis by (simp add: sampling_inv_def)
qed

lemma sampling_inv_bound: "sampling_inv sel used \<Longrightarrow> length sel \<le> length WORD_LIST"
proof -
  assume "sampling_inv sel used"
  then have "used \<subseteq> {..<length WORD_LIST}" "card used = length sel"
    by (simp_all add: sampling_inv_def)
  then show ?thesis
    using card_mono [of "{..<length WORD_LIST}" used] by simp
qed

text \<open>
  A run of the loop that returns, from a state where each selected word has its own
  used index, was asked for no more words than the list has.
\<close>

lemma select_words_needs_room:
  assumes "select_words rnd count sel used i = Some y"
  shows "sampling_inv sel used \<longrightarrow> count \<le> length WORD_LIST"
proof (rule select_words.raw_induct
    [where P = "\<lambda>r c s u j y. sampling_inv s u \<longrightarrow> c \<le> length WORD_LIST", OF _ assms])
  fix f :: "math_random \<Rightarrow> nat \<Rightarrow> string list \<Rightarrow> nat set \<Rightarrow> nat \<Rightarrow> (string list \<times> nat) option"
    and rnd :: math_random and count :: nat and sel :: "string list" and used :: "nat set"
    and i :: nat and y :: "string list \<times> nat"
  let ?k = "random_index (rnd i) (length WORD_LIST)"
  assume IH: "\<And>r c s u j y. f r c s u j = Some y \<Longrightarrow>
                 sampling_inv s u \<longrightarrow> c \<le> length WORD_LIST"
    and eq: "(if length sel < count then
               (let index = random_index (rnd i) (length WORD_LIST) in
                if index \<notin> used
                then f rnd count (sel @ [WORD_LIST ! index]) (insert index used) (i + 1)
                else f rnd count sel used (i + 1))
             else Some (sel, i)) = Some y"
  show "sampling_inv sel used \<longrightarrow> count \<le> length WORD_LIST"
  proof
    assume inv: "sampling_inv sel used"
    show "count \<le> length WORD_LIST"
    proof (cases "length sel < count")
      case False
      with sampling_inv_bound [OF inv] show ?thesis by simp
    next
      case more: True
      show ?thesis
      proof (cases "?k \<in> used")
        case True
        with more eq have "f rnd count sel used (i + 1) = Some y"
          by (simp add: Let_def)
        from IH [OF this] inv show ?thesis by simp
      next
        case False
        with more eq
        have "f rnd count (sel @ [WORD_LIST ! ?k]) (insert ?k used) (i + 1) = Some y"
          by (simp add: Let_def)
        from IH [OF this] sampling_inv_insert [OF inv word_index_less False]
        show ?thesis by simp
      qed
    qed
  qed
qed

text \<open>A run of the loop that returns has selected as many words as it was asked for.\<close>

lemma select_words_count:
  assumes "select_words rnd count sel used i = Some y"
  shows "length sel \<le> count \<longrightarrow> length (fst y) = count"
proof (rule select_words.raw_induct
    [where P = "\<lambda>r c s u j y. length s \<le> c \<longrightarrow> length (fst y) = c", OF _ assms])
  fix f :: "math_random \<Rightarrow> nat \<Rightarrow> string list \<Rightarrow> nat set \<Rightarrow> nat \<Rightarrow> (string list \<times> nat) option"
    and rnd :: math_random and count :: nat and sel :: "string list" and used :: "nat set"
    and i :: nat and y :: "string list \<times> nat"
  let ?k = "random_index (rnd i) (length WORD_LIST)"
  assume IH: "\<And>r c s u j y. f r c s u j = Some y \<Longrightarrow>
                 length s \<le> c \<longrightarrow> length (fst y) = c"
    and eq: "(if length sel < count then
               (let index = random_index (rnd i) (length WORD_LIST) in
                if index \<notin> used
                then f rnd count (sel @ [WORD_LIST ! index]) (insert index used) (i + 1)
                else f rnd count sel used (i + 1))
             else Some (sel, i)) = Some y"
  show "length sel \<le> count \<longrightarrow> length (fst y) = count"
  proof
    assume le: "length sel \<le> count"
    show "length (fst y) = count"
    proof (cases "length sel < count")
      case False
      with eq le show ?thesis by auto
    next
      case more: True
      show ?thesis
      proof (cases "?k \<in> used")
        case True
        with more eq have "f rnd count sel used (i + 1) = Some y"
          by (simp add: Let_def)
        from IH [OF this] le show ?thesis by simp
      next
        case False
        with more eq
        have "f rnd count (sel @ [WORD_LIST ! ?k]) (insert ?k used) (i + 1) = Some y"
          by (simp add: Let_def)
        from IH [OF this] more show ?thesis by simp
      qed
    qed
  qed
qed

text \<open>The three ways a round of the loop goes, as rewrite rules for concrete runs.\<close>

lemma select_words_done:
  "\<not> length sel < count \<Longrightarrow> select_words rnd count sel used i = Some (sel, i)"
  by (subst select_words.simps) simp

lemma select_words_fresh:
  "length sel < count \<Longrightarrow> random_index (rnd i) (length WORD_LIST) = k \<Longrightarrow> k \<notin> used \<Longrightarrow>
     select_words rnd count sel used i =
       select_words rnd count (sel @ [WORD_LIST ! k]) (insert k used) (i + 1)"
  by (subst select_words.simps) (simp add: Let_def)

lemma select_words_retry:
  "length sel < count \<Longrightarrow> random_index (rnd i) (length WORD_LIST) \<in> used \<Longrightarrow>
     select_words rnd count sel used i = select_words rnd count sel used (i + 1)"
  by (subst select_words.simps) (simp add: Let_def)

text \<open>
  The loop returns exactly when \<^verbatim>\<open>Math.random\<close> gets to give as many different
  word indices as words are asked for. First, it returns when some number \<open>N\<close> of
  calls give that many.
\<close>

lemma drawn_indices_Suc:
  "drawn_indices rnd (Suc i) =
     drawn_indices rnd i @ [random_index (rnd i) (length WORD_LIST)]"
  by (simp add: drawn_indices_def)

lemma drawn_indices_mono:
  "N \<le> i \<Longrightarrow> set (drawn_indices rnd N) \<subseteq> set (drawn_indices rnd i)"
  by (auto simp: drawn_indices_def)

lemma select_words_returns:
  assumes enough: "count \<le> card (set (drawn_indices rnd N))"
  shows "used = set (drawn_indices rnd i) \<Longrightarrow> length sel = card used \<Longrightarrow>
           \<exists>y. select_words rnd count sel used i = Some y"
proof (induction "N - i" arbitrary: i sel used)
  case 0
  then have "N \<le> i" by simp
  from card_mono [OF _ drawn_indices_mono [OF this, of rnd]] 0(2,3) enough
  have "\<not> length sel < count" by simp
  then show ?case by (simp add: select_words_done)
next
  case (Suc d)
  let ?k = "random_index (rnd i) (length WORD_LIST)"
  have next_set: "set (drawn_indices rnd (i + 1)) = insert ?k used"
    using Suc.prems(1) by (simp add: drawn_indices_Suc)
  from Suc.hyps(2) have d: "d = N - (i + 1)" by simp
  show ?case
  proof (cases "length sel < count")
    case False
    then show ?thesis by (simp add: select_words_done)
  next
    case more: True
    show ?thesis
    proof (cases "?k \<in> used")
      case True
      then have "used = set (drawn_indices rnd (i + 1))"
        using next_set by auto
      from Suc.hyps(1) [OF d this Suc.prems(2)]
        select_words_retry [of sel count rnd i used, OF more True]
      show ?thesis by simp
    next
      case False
      have "finite used" using Suc.prems(1) by simp
      with False Suc.prems(2) have "length (sel @ [WORD_LIST ! ?k]) = card (insert ?k used)"
        by simp
      from Suc.hyps(1) [OF d next_set [symmetric] this]
        select_words_fresh [of sel count rnd i ?k used, OF more refl False]
      show ?thesis by simp
    qed
  qed
qed

text \<open>
  Conversely, a run that returns after \<open>i\<close> calls has selected one word for each
  different index among these \<open>i\<close> calls.
\<close>

lemma select_words_drawn:
  assumes "select_words rnd count sel used i = Some y"
  shows "used = set (drawn_indices rnd i) \<and> length sel = card used \<longrightarrow>
           length (fst y) = card (set (drawn_indices rnd (snd y)))"
proof (rule select_words.raw_induct
    [where P = "\<lambda>r c s u j y. u = set (drawn_indices r j) \<and> length s = card u \<longrightarrow>
                  length (fst y) = card (set (drawn_indices r (snd y)))", OF _ assms])
  fix f :: "math_random \<Rightarrow> nat \<Rightarrow> string list \<Rightarrow> nat set \<Rightarrow> nat \<Rightarrow> (string list \<times> nat) option"
    and rnd :: math_random and count :: nat and sel :: "string list" and used :: "nat set"
    and i :: nat and y :: "string list \<times> nat"
  let ?k = "random_index (rnd i) (length WORD_LIST)"
  assume IH: "\<And>r c s u j y. f r c s u j = Some y \<Longrightarrow>
                 u = set (drawn_indices r j) \<and> length s = card u \<longrightarrow>
                 length (fst y) = card (set (drawn_indices r (snd y)))"
    and eq: "(if length sel < count then
               (let index = random_index (rnd i) (length WORD_LIST) in
                if index \<notin> used
                then f rnd count (sel @ [WORD_LIST ! index]) (insert index used) (i + 1)
                else f rnd count sel used (i + 1))
             else Some (sel, i)) = Some y"
  show "used = set (drawn_indices rnd i) \<and> length sel = card used \<longrightarrow>
          length (fst y) = card (set (drawn_indices rnd (snd y)))"
  proof
    assume inv: "used = set (drawn_indices rnd i) \<and> length sel = card used"
    then have next_set: "set (drawn_indices rnd (i + 1)) = insert ?k used"
      by (simp add: drawn_indices_Suc)
    show "length (fst y) = card (set (drawn_indices rnd (snd y)))"
    proof (cases "length sel < count")
      case False
      with eq inv show ?thesis by auto
    next
      case more: True
      show ?thesis
      proof (cases "?k \<in> used")
        case True
        with more eq have run: "f rnd count sel used (i + 1) = Some y"
          by (simp add: Let_def)
        from True next_set have "used = set (drawn_indices rnd (i + 1))" by auto
        with IH [OF run] inv show ?thesis by simp
      next
        case False
        with more eq
        have run: "f rnd count (sel @ [WORD_LIST ! ?k]) (insert ?k used) (i + 1) = Some y"
          by (simp add: Let_def)
        have "finite used" using inv by simp
        with False inv have "length (sel @ [WORD_LIST ! ?k]) = card (insert ?k used)"
          by simp
        with IH [OF run] next_set show ?thesis by simp
      qed
    qed
  qed
qed

lemma generateRandomPassphrase_returns_iff:
  "(\<exists>result. generateRandomPassphrase p rnd = Some result) \<longleftrightarrow>
   (\<exists>N. wordCount p \<le> card (set (drawn_indices rnd N)))"
proof
  assume "\<exists>result. generateRandomPassphrase p rnd = Some result"
  then obtain y where sel: "select_words rnd (wordCount p) [] {} 0 = Some y"
    by (cases "select_words rnd (wordCount p) [] {} 0")
      (auto simp: generateRandomPassphrase_def)
  from select_words_drawn [OF sel]
  have "length (fst y) = card (set (drawn_indices rnd (snd y)))"
    by (simp add: drawn_indices_def)
  moreover from select_words_count [OF sel] have "length (fst y) = wordCount p" by simp
  ultimately have "wordCount p \<le> card (set (drawn_indices rnd (snd y)))" by simp
  then show "\<exists>N. wordCount p \<le> card (set (drawn_indices rnd N))" ..
next
  assume "\<exists>N. wordCount p \<le> card (set (drawn_indices rnd N))"
  then obtain N where "wordCount p \<le> card (set (drawn_indices rnd N))" ..
  from select_words_returns [OF this, of "{}" 0 "[]"]
  obtain y where "select_words rnd (wordCount p) [] {} 0 = Some y"
    by (auto simp: drawn_indices_def)
  then show "\<exists>result. generateRandomPassphrase p rnd = Some result"
    by (simp add: generateRandomPassphrase_def Let_def)
qed

text \<open>Two words of the list stand at two indices each.\<close>

lemma WORD_LIST_repeats: "WORD_LIST ! 9 = WORD_LIST ! 80" "WORD_LIST ! 75 = WORD_LIST ! 103"
  by (simp_all add: WORD_LIST_def)

subsection \<open>Capitalisation\<close>

lemma capitalize_words_none: "capitalize_words Cap_none rnd idx i ws = (ws, i)"
  by (induction ws arbitrary: idx) (simp_all add: capitalize_at_def)

lemma capitalize_words_all:
  "capitalize_words Cap_all rnd idx i ws = (map capitalize_word ws, i)"
  by (induction ws arbitrary: idx) (simp_all add: capitalize_at_def)

lemma capitalize_words_first_later:
  "0 < idx \<Longrightarrow> capitalize_words Cap_first rnd idx i ws = (ws, i)"
  by (induction ws arbitrary: idx) (simp_all add: capitalize_at_def)

lemma capitalize_words_first:
  "capitalize_words Cap_first rnd 0 i ws =
     (case ws of [] \<Rightarrow> [] | w # rest \<Rightarrow> capitalize_word w # rest, i)"
  by (cases ws) (simp_all add: capitalize_at_def capitalize_words_first_later)

lemma capitalize_words_random:
  "capitalize_words Cap_random rnd idx i ws =
     (map2 (\<lambda>w k. if above_half (rnd k) then capitalize_word w else w) ws [i..<i + length ws],
      i + length ws)"
proof (induction ws arbitrary: idx i)
  case Nil
  then show ?case by simp
next
  case (Cons w ws)
  have "[i..<i + Suc (length ws)] = i # [Suc i..<i + Suc (length ws)]"
    by (rule upt_conv_Cons) simp
  with Cons.IH [of "idx + 1" "i + 1"] show ?case
    by (simp add: capitalize_at_def)
qed

lemma fst_capitalize_words:
  "fst (capitalize_words mode rnd 0 i ws) = spec_capitalize mode rnd i ws"
  by (cases mode)
    (simp_all add: spec_capitalize_def capitalize_words_none capitalize_words_first
      capitalize_words_all capitalize_words_random)

subsection \<open>The passphrase of a run that returns\<close>

lemma generateRandomPassphrase_total:
  assumes "wordCount p \<le> card (set (drawn_indices rnd N))"
  shows "\<exists>result ws i n.
           generateRandomPassphrase p rnd = Some result \<and>
           select_words rnd (wordCount p) [] {} 0 = Some (ws, i) \<and>
           length ws = wordCount p \<and> n \<le> 9998 \<and>
           result =
             join_words (separator p) (spec_capitalize (capitalize p) rnd i ws) @
             (if includeNumber p then separator p @ number_to_string n else [])"
proof -
  from select_words_returns [OF assms, of "{}" 0 "[]"]
  obtain ws i where sel: "select_words rnd (wordCount p) [] {} 0 = Some (ws, i)"
    by (auto simp: drawn_indices_def)
  let ?cap = "capitalize_words (capitalize p) rnd 0 i ws"
  let ?n = "random_index (rnd (snd ?cap)) 9999"
  let ?result = "join_words (separator p) (fst ?cap) @
      (if includeNumber p then separator p @ number_to_string ?n else [])"
  from select_words_count [OF sel] have len: "length ws = wordCount p" by simp
  from sel have "generateRandomPassphrase p rnd = Some ?result"
    by (simp add: generateRandomPassphrase_def Let_def)
  with sel len trailing_number_range [of "rnd (snd ?cap)"] show ?thesis
    unfolding fst_capitalize_words by blast
qed

subsection \<open>Unfolding concrete runs\<close>

lemma bit_length_0: "bit_length 0 = 0"
  by (simp add: bit_length.simps)

lemma bit_length_Suc_0: "bit_length (Suc 0) = Suc 0"
  by (subst bit_length.simps) (simp add: bit_length_0)

lemma bit_length_double: "0 < n \<Longrightarrow> bit_length (2 * n) = Suc (bit_length n)"
  by (subst bit_length.simps) simp

lemma bit_length_double_plus: "bit_length (Suc (2 * n)) = Suc (bit_length n)"
  by (subst bit_length.simps) simp

lemma bit_length_numeral:
  "bit_length (numeral Num.One) = Suc 0"
  "bit_length (numeral (Num.Bit0 m)) = Suc (bit_length (numeral m))"
  "bit_length (numeral (Num.Bit1 m)) = Suc (bit_length (numeral m))"
proof -
  show "bit_length (numeral Num.One) = Suc 0"
    by (simp add: bit_length_Suc_0)
  have "numeral (Num.Bit0 m) = 2 * (numeral m :: nat)"
    by (simp add: numeral_Bit0 mult_2)
  then show "bit_length (numeral (Num.Bit0 m)) = Suc (bit_length (numeral m))"
    using bit_length_double [of "numeral m"] by simp
  have "numeral (Num.Bit1 m) = Suc (2 * (numeral m :: nat))"
    by (simp add: numeral_Bit1 mult_2)
  then show "bit_length (numeral (Num.Bit1 m)) = Suc (bit_length (numeral m))"
    using bit_length_double_plus [of "numeral m"] by simp
qed

lemmas random_index_run =
  random_index_def round_to_double_def bit_length_0 bit_length_Suc_0 bit_length_numeral
  fraction_def stream_of_def

lemmas password_run =
  generateRandomPassword_def getRandomValues_def build_charset_def filtered_charset_def
  enabled_union_def ensureChars_def ensure_step_def has_char_of_def draw_chars_def
  random_index_run uppercase_def lowercase_def numbers_def symbols_def ambiguous_def upt_rec

lemmas passphrase_run =
  generateRandomPassphrase_def select_words_done select_words_fresh select_words_retry
  length_WORD_LIST random_index_run capitalize_at_def to_upper_def digit_char_def
  number_to_string.simps

text \<open>
  The product of the double nearest to 0.7 and 10 is rounded up to 7, where the exact
  product is below 7.
\<close>

lemma rounded_product_example: "random_index 6305039478318694 10 = 7"
  by (simp add: random_index_run)

text \<open>
  The two bounds of the length lemma. At the length 0, which the slider of the dialog
  cannot give, there is no character to replace, and the splice of the coverage step
  puts its character into the empty result. Above 16384 cells the platform refuses the
  buffer.
\<close>

lemma splice_into_empty_result:
  "generateRandomPassword
     \<lparr>pw_length = 0, includeUppercase = True, includeLowercase = False,
      includeNumbers = False, includeSymbols = False, excludeAmbiguous = False\<rparr>
     (stream_of []) (stream_of [fraction 33 52, fraction 1 2]) = Inr ''Q''"
  by (simp add: password_run)

section \<open>The claims about the credential generator\<close>

subsection \<open>C2: a policy with every category disabled\<close>

text \<open>
  C2 says that a policy with all four category flags disabled fails with an
  \<^verbatim>\<open>InvalidPolicy\<close> error and never gets a default character set. The generator has
  no such error: the empty character set is replaced by the lower-case alphabet. With
  the secure source giving 0, 1, ..., 15 the result is a password.
\<close>

theorem all_disabled_returns_password:
  "generateRandomPassword
     \<lparr>pw_length = 16, includeUppercase = False, includeLowercase = False,
      includeNumbers = False, includeSymbols = False, excludeAmbiguous = False\<rparr>
     (stream_of [0, 1, 2, 3, 4, 5, 6, 7, 8, 9, 10, 11, 12, 13, 14, 15]) (stream_of [])
   = Inr ''abcdefghijklmnop''"
  by (simp add: password_run)

text \<open>
  C2, as amended: when all four category flags are disabled, the generator falls back to
  the lower-case alphabet. For every length up to the 16384 cells the platform fills, it
  returns a password of the requested length made of lower-case letters only, whatever
  the flag for ambiguous characters.
\<close>

theorem all_disabled_falls_back_to_lowercase:
  assumes "\<not> includeUppercase p" "\<not> includeLowercase p" "\<not> includeNumbers p"
    "\<not> includeSymbols p" "pw_length p \<le> 16384"
  shows "\<exists>pw. generateRandomPassword p secure rnd = Inr pw \<and> length pw = pw_length p \<and>
           set pw \<subseteq> set lowercase"
proof -
  from assms have charset: "build_charset p = lowercase"
    by (simp add: build_charset_def filtered_charset_def enabled_union_def)
  from assms have none: "ensureChars p = []"
    by (simp add: ensureChars_def)
  let ?pw = "draw_chars lowercase (map secure [0..<pw_length p])"
  have "set ?pw \<subseteq> set lowercase"
    by (rule set_draw_chars) (simp add: lowercase_def)
  moreover have "length ?pw = pw_length p"
    by (simp add: length_draw_chars)
  moreover from assms(5) charset none have "generateRandomPassword p secure rnd = Inr ?pw"
    by (simp add: generateRandomPassword_def getRandomValues_def)
  ultimately show ?thesis by blast
qed

text \<open>The amended C2 at the policy of length 16 with everything disabled.\<close>

theorem all_disabled_falls_back_to_lowercase_witness:
  "\<exists>pw. generateRandomPassword
          \<lparr>pw_length = 16, includeUppercase = False, includeLowercase = False,
           includeNumbers = False, includeSymbols = False, excludeAmbiguous = True\<rparr>
          (stream_of [8, 11, 14]) (stream_of []) = Inr pw \<and>
        length pw = 16 \<and> set pw \<subseteq> set lowercase"
  using all_disabled_falls_back_to_lowercase
    [of "\<lparr>pw_length = 16, includeUppercase = False, includeLowercase = False,
          includeNumbers = False, includeSymbols = False, excludeAmbiguous = True\<rparr>"
        "stream_of [8, 11, 14]" "stream_of []"]
  by simp

subsection \<open>C3: where the randomness comes from\<close>

text \<open>
  C3 says that every random choice comes from the secure source, so that the output
  depends on the policy and the secure source only. Only the drawing loop of the password
  reads \<^verbatim>\<open>crypto.getRandomValues\<close>; the coverage step and the whole passphrase
  generator call \<^verbatim>\<open>Math.random\<close>. With one policy and one secure stream, two
  \<^verbatim>\<open>Math.random\<close> streams give two passwords, and two passphrases.
\<close>

theorem output_depends_on_math_random:
  "generateRandomPassword
     \<lparr>pw_length = 8, includeUppercase = True, includeLowercase = True,
      includeNumbers = False, includeSymbols = False, excludeAmbiguous = False\<rparr>
     (stream_of [26, 27, 28, 29, 30, 31, 32, 33])
     (stream_of [fraction 33 52, fraction 7 16]) = Inr ''abcQefgh'' \<and>
   generateRandomPassword
     \<lparr>pw_length = 8, includeUppercase = True, includeLowercase = True,
      includeNumbers = False, includeSymbols = False, excludeAmbiguous = False\<rparr>
     (stream_of [26, 27, 28, 29, 30, 31, 32, 33])
     (stream_of [fraction 7 52, fraction 13 16]) = Inr ''abcdefDh'' \<and>
   generateRandomPassphrase
     \<lparr>wordCount = 3, separator = ''-'', capitalize = Cap_none, includeNumber = False\<rparr>
     (stream_of [fraction 1 224, fraction 3 224, fraction 5 224])
     = Some ''correct-horse-battery'' \<and>
   generateRandomPassphrase
     \<lparr>wordCount = 3, separator = ''-'', capitalize = Cap_none, includeNumber = False\<rparr>
     (stream_of [fraction 7 224, fraction 9 224, fraction 11 224])
     = Some ''staple-dragon-monkey''"
proof (intro conjI)
  show "generateRandomPassword
     \<lparr>pw_length = 8, includeUppercase = True, includeLowercase = True,
      includeNumbers = False, includeSymbols = False, excludeAmbiguous = False\<rparr>
     (stream_of [26, 27, 28, 29, 30, 31, 32, 33])
     (stream_of [fraction 33 52, fraction 7 16]) = Inr ''abcQefgh''"
    by (simp add: password_run)
  show "generateRandomPassword
     \<lparr>pw_length = 8, includeUppercase = True, includeLowercase = True,
      includeNumbers = False, includeSymbols = False, excludeAmbiguous = False\<rparr>
     (stream_of [26, 27, 28, 29, 30, 31, 32, 33])
     (stream_of [fraction 7 52, fraction 13 16]) = Inr ''abcdefDh''"
    by (simp add: password_run)
  show "generateRandomPassphrase
     \<lparr>wordCount = 3, separator = ''-'', capitalize = Cap_none, includeNumber = False\<rparr>
     (stream_of [fraction 1 224, fraction 3 224, fraction 5 224])
     = Some ''correct-horse-battery''"
    by (simp add: passphrase_run) (simp add: WORD_LIST_def)
  show "generateRandomPassphrase
     \<lparr>wordCount = 3, separator = ''-'', capitalize = Cap_none, includeNumber = False\<rparr>
     (stream_of [fraction 7 224, fraction 9 224, fraction 11 224])
     = Some ''staple-dragon-monkey''"
    by (simp add: passphrase_run) (simp add: WORD_LIST_def)
qed

subsection \<open>C4: distinct words\<close>

text \<open>
  C4 says that the words of one passphrase are pairwise distinct. The loop keeps the
  drawn indices distinct, and the list has the word at index 9 again at index 80 (and
  the word at index 75 again at index 103). With \<^verbatim>\<open>Math.random\<close> giving the
  indices 9, 80 and 0, the passphrase of three words has one word twice.
\<close>

theorem passphrase_repeats_word:
  "select_words (stream_of [fraction 19 224, fraction 161 224, fraction 1 224]) 3 [] {} 0
     = Some ([''thunder'', ''thunder'', ''correct''], 3) \<and>
   \<not> distinct [''thunder'', ''thunder'', ''correct''] \<and>
   generateRandomPassphrase
     \<lparr>wordCount = 3, separator = ''-'', capitalize = Cap_none, includeNumber = False\<rparr>
     (stream_of [fraction 19 224, fraction 161 224, fraction 1 224])
     = Some ''thunder-thunder-correct''"
proof (intro conjI)
  show "select_words (stream_of [fraction 19 224, fraction 161 224, fraction 1 224])
      3 [] {} 0 = Some ([''thunder'', ''thunder'', ''correct''], 3)"
    by (simp add: passphrase_run) (simp add: WORD_LIST_def)
  show "\<not> distinct [''thunder'', ''thunder'', ''correct'']"
    by simp
  show "generateRandomPassphrase
     \<lparr>wordCount = 3, separator = ''-'', capitalize = Cap_none, includeNumber = False\<rparr>
     (stream_of [fraction 19 224, fraction 161 224, fraction 1 224])
     = Some ''thunder-thunder-correct''"
    by (simp add: passphrase_run) (simp add: WORD_LIST_def)
qed

subsection \<open>C5: ambiguous characters\<close>

text \<open>
  C5 says that with \<^verbatim>\<open>excludeAmbiguous\<close> set no character of the password is one
  of \<^verbatim>\<open>il1Lo0O\<close>, the characters of the coverage step included. The filter is applied
  to the character set of the drawing loop only; the coverage step takes its character
  from the unfiltered category. Here the eight drawn characters have no digit, and the
  coverage step puts the digit \<^verbatim>\<open>0\<close> at position 3.
\<close>

theorem injection_places_ambiguous_char:
  "generateRandomPassword
     \<lparr>pw_length = 8, includeUppercase = True, includeLowercase = True,
      includeNumbers = True, includeSymbols = True, excludeAmbiguous = True\<rparr>
     (stream_of [0, 24, 55, 1, 25, 56, 2, 26])
     (stream_of [fraction 1 20, fraction 7 16]) = Inr ''Aa!0b@Cc'' \<and>
   List.member ambiguous (CHR ''0'')"
  by (simp add: password_run)

subsection \<open>C6: coverage of the four categories\<close>

text \<open>
  C6 says that the policy of length 16 with the four categories enabled always gives 16
  characters with at least one of each category. The coverage step treats the categories
  one after the other and never looks back: a later round can replace the only character
  of an earlier category. Here the drawn characters are lower-case letters; the
  upper-case letter is put at position 3, the digit replaces it there, and the symbol
  goes to position 9. The result has no upper-case letter.
\<close>

theorem injection_overwrites_coverage:
  "generateRandomPassword
     \<lparr>pw_length = 16, includeUppercase = True, includeLowercase = True,
      includeNumbers = True, includeSymbols = True, excludeAmbiguous = False\<rparr>
     (stream_of [26, 27, 28, 29, 30, 31, 32, 33, 34, 35, 36, 37, 38, 39, 40, 41])
     (stream_of [fraction 33 52, fraction 7 32, fraction 9 20, fraction 7 32,
                 fraction 5 52, fraction 19 32])
     = Inr ''abc4efghi#klmnop'' \<and>
   \<not> has_char_of uppercase ''abc4efghi#klmnop''"
  by (simp add: password_run)

subsection \<open>C7: the length of the password\<close>

text \<open>
  C7: the generated password has exactly the requested length, also after the coverage
  step, which replaces a character in place and never inserts one. This holds for every
  policy the dialog can hold, whose length is between 8 and 64, and more generally for
  every length from 1 to 16384, the most cells the platform fills in one call.
\<close>

theorem password_length_exact:
  "1 \<le> pw_length p \<Longrightarrow> pw_length p \<le> 16384 \<Longrightarrow>
     \<exists>pw. generateRandomPassword p secure rnd = Inr pw \<and> length pw = pw_length p"
  by (rule generateRandomPassword_length)

text \<open>C7 at a policy of length 16 whose coverage step runs three times.\<close>

theorem password_length_exact_witness:
  "\<exists>pw. generateRandomPassword
          \<lparr>pw_length = 16, includeUppercase = True, includeLowercase = True,
           includeNumbers = True, includeSymbols = True, excludeAmbiguous = False\<rparr>
          (constant_stream 26) (stream_of []) = Inr pw \<and> length pw = 16"
  using password_length_exact
    [of "\<lparr>pw_length = 16, includeUppercase = True, includeLowercase = True,
          includeNumbers = True, includeSymbols = True, excludeAmbiguous = False\<rparr>"
        "constant_stream 26" "stream_of []"]
  by simp

subsection \<open>C8: the structure of the passphrase\<close>

text \<open>
  C8: the generator returns a passphrase made of the selected words, as many as the word
  count, capitalised as the policy says (\<^verbatim>\<open>none\<close>: all unchanged, \<^verbatim>\<open>first\<close>: the
  first word only, \<^verbatim>\<open>all\<close>: every word) and joined by the separator; when
  \<^verbatim>\<open>includeNumber\<close> is set it ends with the separator and the decimal numeral of an
  integer from 0 to 9998. The passphrase is returned for every policy and every stream
  of \<^verbatim>\<open>Math.random\<close> in which some number \<open>N\<close> of calls give as many different word
  indices as the word count; there is no other run that returns.
\<close>

theorem passphrase_structure:
  "wordCount p \<le> card (set (drawn_indices rnd N)) \<Longrightarrow>
     \<exists>result ws i n.
       generateRandomPassphrase p rnd = Some result \<and>
       select_words rnd (wordCount p) [] {} 0 = Some (ws, i) \<and>
       length ws = wordCount p \<and> n \<le> 9998 \<and>
       result =
         join_words (separator p) (spec_capitalize (capitalize p) rnd i ws) @
         (if includeNumber p then separator p @ number_to_string n else [])"
  by (rule generateRandomPassphrase_total)

text \<open>
  C8 at the policy of four words, separator \<^verbatim>\<open>-\<close>, first word capitalised and a
  trailing number, with four calls that give the indices 0, 1, 2 and 3.
\<close>

theorem passphrase_structure_witness:
  "4 \<le> card (set (drawn_indices
       (stream_of [fraction 1 224, fraction 3 224, fraction 5 224, fraction 7 224,
                   fraction 9643 19998]) 4)) \<and>
   generateRandomPassphrase
     \<lparr>wordCount = 4, separator = ''-'', capitalize = Cap_first, includeNumber = True\<rparr>
     (stream_of [fraction 1 224, fraction 3 224, fraction 5 224, fraction 7 224,
                 fraction 9643 19998])
     = Some ''Correct-horse-battery-staple-4821'' \<and>
   (\<exists>result ws i n.
      generateRandomPassphrase
        \<lparr>wordCount = 4, separator = ''-'', capitalize = Cap_first, includeNumber = True\<rparr>
        (stream_of [fraction 1 224, fraction 3 224, fraction 5 224, fraction 7 224,
                    fraction 9643 19998]) = Some result \<and>
      select_words
        (stream_of [fraction 1 224, fraction 3 224, fraction 5 224, fraction 7 224,
                    fraction 9643 19998]) 4 [] {} 0 = Some (ws, i) \<and>
      length ws = 4 \<and> n \<le> 9998 \<and>
      result =
        join_words ''-''
          (spec_capitalize Cap_first
            (stream_of [fraction 1 224, fraction 3 224, fraction 5 224, fraction 7 224,
                        fraction 9643 19998]) i ws) @
        ''-'' @ number_to_string n)"
proof -
  have draws: "4 \<le> card (set (drawn_indices
       (stream_of [fraction 1 224, fraction 3 224, fraction 5 224, fraction 7 224,
                   fraction 9643 19998]) 4))"
    by (simp add: drawn_indices_def passphrase_run upt_rec)
  have run: "generateRandomPassphrase
     \<lparr>wordCount = 4, separator = ''-'', capitalize = Cap_first, includeNumber = True\<rparr>
     (stream_of [fraction 1 224, fraction 3 224, fraction 5 224, fraction 7 224,
                 fraction 9643 19998])
     = Some ''Correct-horse-battery-staple-4821''"
    by (simp add: passphrase_run) (simp add: WORD_LIST_def to_upper_def)
  from passphrase_structure
    [of "\<lparr>wordCount = 4, separator = ''-'', capitalize = Cap_first, includeNumber = True\<rparr>"
        "stream_of [fraction 1 224, fraction 3 224, fraction 5 224, fraction 7 224,
                    fraction 9643 19998]" 4]
    draws run
  show ?thesis by simp
qed

subsection \<open>C9: values outside the documented bounds\<close>

text \<open>
  C9 says that a length outside 8 to 64, or a word count outside 3 to 8, is rejected
  with an \<^verbatim>\<open>InvalidPolicy\<close> error before any randomness is drawn. The generators
  check no bound; the bounds are the minimum and maximum of the two sliders of the
  dialog. At the length 7 the generator draws and returns a password.
\<close>

theorem out_of_bounds_accepted:
  "generateRandomPassword
     \<lparr>pw_length = 7, includeUppercase = True, includeLowercase = True,
      includeNumbers = True, includeSymbols = True, excludeAmbiguous = False\<rparr>
     (stream_of [0, 27, 53, 63, 4, 5, 6]) (stream_of []) = Inr ''Ab1@EFG''"
  by (simp add: password_run)

text \<open>
  C9, as amended: the generators reject no policy for a length or a word count outside
  the documented bounds. For every length up to 16384, inside the range 8 to 64 or not,
  the password generator returns a password, and from the length 1 on the password has
  exactly the requested length. For every word count, inside the range 3 to 8 or not,
  for which some number \<open>N\<close> of calls of \<^verbatim>\<open>Math.random\<close> give that many different word
  indices, the passphrase generator returns the passphrase built from exactly that many
  selected words. So on these ranges a value out of bounds is used as it is, neither
  rejected nor clamped.
\<close>

theorem no_bounds_rejection:
  "(pw_length p \<le> 16384 \<longrightarrow>
      (\<exists>pw. generateRandomPassword p secure rnd = Inr pw \<and>
            (1 \<le> pw_length p \<longrightarrow> length pw = pw_length p))) \<and>
   (wordCount q \<le> card (set (drawn_indices rnd' N)) \<longrightarrow>
      (\<exists>result ws i n.
         generateRandomPassphrase q rnd' = Some result \<and>
         select_words rnd' (wordCount q) [] {} 0 = Some (ws, i) \<and>
         length ws = wordCount q \<and> n \<le> 9998 \<and>
         result =
           join_words (separator q) (spec_capitalize (capitalize q) rnd' i ws) @
           (if includeNumber q then separator q @ number_to_string n else [])))"
proof (intro conjI impI)
  assume le: "pw_length p \<le> 16384"
  show "\<exists>pw. generateRandomPassword p secure rnd = Inr pw \<and>
          (1 \<le> pw_length p \<longrightarrow> length pw = pw_length p)"
  proof (cases "1 \<le> pw_length p")
    case True
    from generateRandomPassword_length [OF True le, of secure rnd] show ?thesis by blast
  next
    case False
    with le show ?thesis
      by (simp add: generateRandomPassword_def getRandomValues_def)
  qed
next
  assume "wordCount q \<le> card (set (drawn_indices rnd' N))"
  then show "\<exists>result ws i n.
         generateRandomPassphrase q rnd' = Some result \<and>
         select_words rnd' (wordCount q) [] {} 0 = Some (ws, i) \<and>
         length ws = wordCount q \<and> n \<le> 9998 \<and>
         result =
           join_words (separator q) (spec_capitalize (capitalize q) rnd' i ws) @
           (if includeNumber q then separator q @ number_to_string n else [])"
    by (rule generateRandomPassphrase_total)
qed

text \<open>
  The amended C9 at the length 65 and at the word count 9, both outside the documented
  ranges, with nine calls that give the indices 0 to 8.
\<close>

theorem no_bounds_rejection_witness:
  "(\<exists>pw. generateRandomPassword
           \<lparr>pw_length = 65, includeUppercase = True, includeLowercase = True,
            includeNumbers = True, includeSymbols = True, excludeAmbiguous = False\<rparr>
           (constant_stream 7) (stream_of []) = Inr pw \<and> length pw = 65) \<and>
   9 \<le> card (set (drawn_indices
       (stream_of [fraction 1 224, fraction 3 224, fraction 5 224, fraction 7 224,
                   fraction 9 224, fraction 11 224, fraction 13 224, fraction 15 224,
                   fraction 17 224]) 9)) \<and>
   (\<exists>result ws i (n::nat).
      generateRandomPassphrase
        \<lparr>wordCount = 9, separator = ''_'', capitalize = Cap_none, includeNumber = False\<rparr>
        (stream_of [fraction 1 224, fraction 3 224, fraction 5 224, fraction 7 224,
                    fraction 9 224, fraction 11 224, fraction 13 224, fraction 15 224,
                    fraction 17 224]) = Some result \<and>
      select_words
        (stream_of [fraction 1 224, fraction 3 224, fraction 5 224, fraction 7 224,
                    fraction 9 224, fraction 11 224, fraction 13 224, fraction 15 224,
                    fraction 17 224]) 9 [] {} 0 = Some (ws, i) \<and>
      length ws = 9 \<and> n \<le> 9998 \<and>
      result =
        join_words ''_''
          (spec_capitalize Cap_none
            (stream_of [fraction 1 224, fraction 3 224, fraction 5 224, fraction 7 224,
                        fraction 9 224, fraction 11 224, fraction 13 224, fraction 15 224,
                        fraction 17 224]) i ws))"
proof -
  have draws: "9 \<le> card (set (drawn_indices
       (stream_of [fraction 1 224, fraction 3 224, fraction 5 224, fraction 7 224,
                   fraction 9 224, fraction 11 224, fraction 13 224, fraction 15 224,
                   fraction 17 224]) 9))"
    by (simp add: drawn_indices_def passphrase_run upt_rec)
  from no_bounds_rejection
    [of "\<lparr>pw_length = 65, includeUppercase = True, includeLowercase = True,
          includeNumbers = True, includeSymbols = True, excludeAmbiguous = False\<rparr>"
        "constant_stream 7" "stream_of []"
        "\<lparr>wordCount = 9, separator = ''_'', capitalize = Cap_none, includeNumber = False\<rparr>"
        "stream_of [fraction 1 224, fraction 3 224, fraction 5 224, fraction 7 224,
                    fraction 9 224, fraction 11 224, fraction 13 224, fraction 15 224,
                    fraction 17 224]" 9]
    draws
  show ?thesis by simp
qed

subsection \<open>C10: word counts beyond the word list\<close>

text \<open>
  C10: the passphrase generator returns only when the word count is at most 112, the
  number of entries of the word list. For every word count above 112, whatever
  \<^verbatim>\<open>Math.random\<close> gives, the sampling loop never ends, and nothing in the generator
  checks the word count before the loop.
\<close>

theorem passphrase_never_returns:
  "112 < wordCount p \<Longrightarrow> generateRandomPassphrase p rnd = None"
proof (rule ccontr)
  assume big: "112 < wordCount p" and "generateRandomPassphrase p rnd \<noteq> None"
  then obtain y where "select_words rnd (wordCount p) [] {} 0 = Some y"
    by (auto simp: generateRandomPassphrase_def split: option.splits)
  from select_words_needs_room [OF this] have "wordCount p \<le> length WORD_LIST"
    by (simp add: sampling_inv_def)
  with big show False by (simp add: length_WORD_LIST)
qed

text \<open>C10 at the word count 113.\<close>

theorem passphrase_never_returns_witness:
  "generateRandomPassphrase
     \<lparr>wordCount = 113, separator = ''-'', capitalize = Cap_first, includeNumber = True\<rparr>
     (stream_of []) = None"
  using passphrase_never_returns
    [of "\<lparr>wordCount = 113, separator = ''-'', capitalize = Cap_first, includeNumber = True\<rparr>"
        "stream_of []"]
  by simp

end
